theory Spec2Isabelle
  imports Complex_Main "HOL-Library.Multiset"
begin

section \<open>MSES closed-curve manipulation (PJ6/mses.py)\<close>

text \<open>
  The module works on one-dimensional numeric sequences (numpy arrays of floats read from
  a two-column file). A sequence is a list. The functions only compare coordinates
  (\<open>>=\<close>, \<open>==\<close>) and slice, so the element type is left polymorphic over a linear order;
  the interpolation needs a field. Finite floats compare as the numbers they denote; NaN is
  outside this model.

  The module defines no exception class of its own. What it can raise are the interpreter's
  and numpy's errors, which are the constructors below.
\<close>

datatype error = IndexError | TypeError | ValueError

subsection \<open>FindLE\<close>

text \<open>
  \<^verbatim>\<open>
  xold = X[0]
  for i, x in enumerate(X[1:]):
      if x >= xold:
          return i
      else:
          xold = x
  \<close>
  The loop runs over the tail \<open>X[1:]\<close> with the counter \<open>i\<close> starting at 0. When the
  loop ends without a \<open>return\<close> the function returns Python's \<open>None\<close>, here the value
  \<open>None\<close> of \<open>nat option\<close>. \<open>X[0]\<close> on an empty sequence raises \<open>IndexError\<close>.
\<close>

fun FindLE_loop :: "'a::linorder \<Rightarrow> nat \<Rightarrow> 'a list \<Rightarrow> nat option" where
  "FindLE_loop xold i [] = None"
| "FindLE_loop xold i (x # xs) =
     (if x \<ge> xold then Some i else FindLE_loop x (Suc i) xs)"

definition FindLE :: "'a::linorder list \<Rightarrow> error + nat option" where
  "FindLE X = (case X of [] \<Rightarrow> Inl IndexError
                       | xold # tail \<Rightarrow> Inr (FindLE_loop xold 0 tail))"

subsection \<open>MsesSplit\<close>

text \<open>
  \<^verbatim>\<open>
  iLE = FindLE(x)
  up = y[iLE::-1]
  lo = y[iLE+1:]
  return up, lo
  \<close>
  For an index \<open>iLE \<ge> 0\<close> the slice \<open>y[iLE::-1]\<close> is \<open>y[iLE], ..., y[0]\<close>, with the start
  clipped to the last element when \<open>y\<close> is shorter; \<open>y[iLE+1:]\<close> is the rest, empty when
  \<open>y\<close> is shorter. With \<open>iLE = None\<close> the first slice is evaluated (the whole of \<open>y\<close>
  reversed) and \<open>iLE+1\<close> then raises \<open>TypeError\<close>.
\<close>

definition MsesSplit :: "'a::linorder list \<Rightarrow> 'b list \<Rightarrow> error + ('b list \<times> 'b list)" where
  "MsesSplit x y =
     (case FindLE x of
        Inl e \<Rightarrow> Inl e
      | Inr None \<Rightarrow> Inl TypeError
      | Inr (Some iLE) \<Rightarrow> Inr (rev (take (iLE + 1) y), drop (iLE + 1) y))"

subsection \<open>MsesInterp\<close>

text \<open>
  Modelled from the spec: \<open>np.interp\<close> is numpy's, not part of the module. The spec calls it
  ``standard piecewise-linear interpolation with edge clamping'': below the first node the
  first value, above the last node the last value, at a node its value, between two nodes
  the line through them. Where a node is repeated the last of the equal nodes is taken, as
  numpy's search does. numpy refuses an empty \<open>xp\<close> and an \<open>fp\<close> of another length with
  \<open>ValueError\<close>.
\<close>

fun lin_interp :: "'a::linordered_field \<Rightarrow> 'a list \<Rightarrow> 'a list \<Rightarrow> 'a" where
  "lin_interp x (x0 # x1 # xp) (y0 # y1 # fp) =
     (if x < x1
      then (if x \<le> x0 then y0 else y0 + (y1 - y0) / (x1 - x0) * (x - x0))
      else lin_interp x (x1 # xp) (y1 # fp))"
| "lin_interp x [x0] (y0 # fp) = y0"
| "lin_interp x xp fp = 0"

text \<open>
  Modelled from the spec: the call \<open>np.interp(xout, xp, fp)\<close> resamples every element of
  \<open>xout\<close> on its own; numpy raises \<open>ValueError\<close> for an empty \<open>xp\<close> and for an
  \<open>fp\<close> whose length is not that of \<open>xp\<close>.
\<close>

definition np_interp :: "'a::linordered_field list \<Rightarrow> 'a list \<Rightarrow> 'a list \<Rightarrow> error + 'a list" where
  "np_interp xout xp fp =
     (if xp = [] then Inl ValueError
      else if length fp \<noteq> length xp then Inl ValueError
      else Inr (map (\<lambda>x. lin_interp x xp fp) xout))"

text \<open>
  \<^verbatim>\<open>
  xup_mses, xlo_mses = MsesSplit(xmses, xmses)
  yup_mses, ylo_mses = MsesSplit(xmses, ymses)
  yup = np.interp(xout, xup_mses, yup_mses)
  ylo = np.interp(xout, xlo_mses, ylo_mses)
  return yup, ylo
  \<close>
\<close>

definition MsesInterp ::
  "'a::linordered_field list \<Rightarrow> 'a list \<Rightarrow> 'a list \<Rightarrow> error + ('a list \<times> 'a list)" where
  "MsesInterp xout xmses ymses =
     (case MsesSplit xmses xmses of
        Inl e \<Rightarrow> Inl e
      | Inr (xup_mses, xlo_mses) \<Rightarrow>
     (case MsesSplit xmses ymses of
        Inl e \<Rightarrow> Inl e
      | Inr (yup_mses, ylo_mses) \<Rightarrow>
     (case np_interp xout xup_mses yup_mses of
        Inl e \<Rightarrow> Inl e
      | Inr yup \<Rightarrow>
     (case np_interp xout xlo_mses ylo_mses of
        Inl e \<Rightarrow> Inl e
      | Inr ylo \<Rightarrow> Inr (yup, ylo)))))"

subsection \<open>MsesMerge\<close>

text \<open>
  The test \<open>xlo[0] == xup[0] and ylo[0] == 0 and yup[0] == 0\<close> is evaluated left to
  right and stops at the first false conjunct; each \<open>[0]\<close> on an empty sequence raises
  \<open>IndexError\<close>.
\<close>

definition drop_LE :: "'a::zero list \<Rightarrow> 'a list \<Rightarrow> 'a list \<Rightarrow> 'a list \<Rightarrow> error + bool" where
  "drop_LE xlo xup ylo yup =
     (case xlo of [] \<Rightarrow> Inl IndexError | xl # _ \<Rightarrow>
     (case xup of [] \<Rightarrow> Inl IndexError | xu # _ \<Rightarrow>
      if xl \<noteq> xu then Inr False else
     (case ylo of [] \<Rightarrow> Inl IndexError | yl # _ \<Rightarrow>
      if yl \<noteq> 0 then Inr False else
     (case yup of [] \<Rightarrow> Inl IndexError | yu # _ \<Rightarrow> Inr (yu = 0)))))"

text \<open>
  An assignment \<open>a[lo:hi] = v\<close> to a slice of a one-dimensional numpy array: the slice
  keeps its length; \<open>v\<close> must have that length, or length 1, which numpy broadcasts over
  the slice; any other length raises \<open>ValueError\<close>.
\<close>

definition slice_assign :: "'a list \<Rightarrow> nat \<Rightarrow> nat \<Rightarrow> 'a list \<Rightarrow> error + 'a list" where
  "slice_assign a lo hi v =
     (let m = min hi (length a) - lo in
      if length v = m then Inr (take lo a @ v @ drop (lo + m) a)
      else if length v = 1 then Inr (take lo a @ replicate m (hd v) @ drop (lo + m) a)
      else Inl ValueError)"

text \<open>
  \<^verbatim>\<open>
  if xlo[0] == xup[0] and ylo[0] == 0 and yup[0] == 0:
      xlo = xlo[1:]
      ylo = ylo[1:]
  n1 = len(xup)
  n = n1 + len(xlo)
  x, y = np.zeros(n), np.zeros(n)
  x[:n1], y[:n1] = xup[-1::-1], yup[-1::-1]
  x[n1:], y[n1:] = xlo, ylo
  return x, y
  \<close>
\<close>

definition MsesMerge ::
  "'a::zero list \<Rightarrow> 'a list \<Rightarrow> 'a list \<Rightarrow> 'a list \<Rightarrow> error + ('a list \<times> 'a list)" where
  "MsesMerge xlo xup ylo yup =
     (case drop_LE xlo xup ylo yup of
        Inl e \<Rightarrow> Inl e
      | Inr d \<Rightarrow>
     (let xlo' = (if d then drop 1 xlo else xlo);
          ylo' = (if d then drop 1 ylo else ylo);
          n1 = length xup;
          n = n1 + length xlo'
      in
     (case slice_assign (replicate n 0) 0 n1 (rev xup) of
        Inl e \<Rightarrow> Inl e
      | Inr x1 \<Rightarrow>
     (case slice_assign (replicate n 0) 0 n1 (rev yup) of
        Inl e \<Rightarrow> Inl e
      | Inr y1 \<Rightarrow>
     (case slice_assign x1 n1 n xlo' of
        Inl e \<Rightarrow> Inl e
      | Inr x2 \<Rightarrow>
     (case slice_assign y1 n1 n ylo' of
        Inl e \<Rightarrow> Inl e
      | Inr y2 \<Rightarrow> Inr (x2, y2)))))))"

subsection \<open>MSES ordering\<close>

text \<open>
  A valid curve: the x coordinate strictly decreases from the trailing edge down to the
  leading edge at some index \<open>k\<close>, and from there is non-decreasing back to the trailing
  edge, which lies beyond \<open>k\<close>.
\<close>

definition valid_mses :: "'a::linorder list \<Rightarrow> bool" where
  "valid_mses x =
     (\<exists>k \<in> set [0 ..< length x - 1].
        sorted_wrt (\<lambda>a b. a > b) (take (Suc k) x) \<and> sorted (drop k x))"

section \<open>Properties\<close>

subsection \<open>What FindLE returns\<close>

lemma FindLE_loop_Suc:
  "FindLE_loop xold (Suc i) xs = map_option Suc (FindLE_loop xold i xs)"
  by (induction xs arbitrary: xold i) auto

lemma FindLE_loop_Some_iff:
  "FindLE_loop xold 0 xs = Some j \<longleftrightarrow>
     j < length xs \<and> sorted_wrt (\<lambda>a b. a > b) (take (Suc j) (xold # xs))
       \<and> (xold # xs) ! j \<le> (xold # xs) ! Suc j"
proof (induction xs arbitrary: xold j)
  case Nil
  then show ?case by simp
next
  case (Cons x xs)
  show ?case
  proof (cases "x \<ge> xold")
    case True
    then show ?thesis
      by (cases j) auto
  next
    case False
    then have lt: "x < xold" by simp
    show ?thesis
    proof (cases j)
      case 0
      with False show ?thesis by (auto simp: FindLE_loop_Suc)
    next
      case (Suc j')
      have "\<And>a. a < x \<Longrightarrow> a < xold" using lt by simp
      with Suc False lt Cons.IH [of x j'] show ?thesis
        by (auto simp: FindLE_loop_Suc)
    qed
  qed
qed

lemma FindLE_loop_None_iff:
  "FindLE_loop xold i xs = None \<longleftrightarrow> sorted_wrt (\<lambda>a b. a > b) (xold # xs)"
proof (induction xs arbitrary: xold i)
  case Nil
  then show ?case by simp
next
  case (Cons x xs)
  show ?case
  proof (cases "x \<ge> xold")
    case True
    then show ?thesis by auto
  next
    case False
    then have "\<And>a. a < x \<Longrightarrow> a < xold" by simp
    with False Cons.IH [of x "Suc i"] show ?thesis by auto
  qed
qed

text \<open>
  The three outcomes of \<open>FindLE\<close>: an index \<open>i\<close> exactly when \<open>X\<close> strictly decreases
  up to position \<open>i\<close> and does not decrease from \<open>i\<close> to \<open>i + 1\<close>; \<open>None\<close> exactly when
  \<open>X\<close> is non-empty and strictly decreasing throughout; \<open>IndexError\<close> exactly when \<open>X\<close>
  is empty.
\<close>

lemma FindLE_Some_iff:
  "FindLE X = Inr (Some i) \<longleftrightarrow>
     Suc i < length X \<and> sorted_wrt (\<lambda>a b. a > b) (take (Suc i) X) \<and> X ! i \<le> X ! Suc i"
  by (cases X) (auto simp: FindLE_def FindLE_loop_Some_iff)

lemma FindLE_None_iff:
  "FindLE X = Inr None \<longleftrightarrow> X \<noteq> [] \<and> sorted_wrt (\<lambda>a b. a > b) X"
  by (cases X) (auto simp: FindLE_def FindLE_loop_None_iff)

lemma FindLE_Inl_iff: "FindLE X = Inl e \<longleftrightarrow> X = [] \<and> e = IndexError"
  by (cases X) (auto simp: FindLE_def)

lemma valid_mses_FindLE:
  assumes "valid_mses x"
  shows "\<exists>i. FindLE x = Inr (Some i) \<and> Suc i < length x \<and> sorted (drop i x)"
proof -
  from assms obtain k where k: "k < length x - 1"
    "sorted_wrt (\<lambda>a b. a > b) (take (Suc k) x)" "sorted (drop k x)"
    by (auto simp: valid_mses_def)
  then have len: "Suc k < length x" by simp
  have "drop k x = x ! k # x ! Suc k # drop (Suc (Suc k)) x"
    using len by (simp add: Cons_nth_drop_Suc)
  with k(3) have "x ! k \<le> x ! Suc k" by simp
  with len k show ?thesis by (auto simp: FindLE_Some_iff)
qed

lemma MsesSplit_Some:
  "FindLE x = Inr (Some i) \<Longrightarrow> MsesSplit x y = Inr (rev (take (Suc i) y), drop (Suc i) y)"
  by (simp add: MsesSplit_def)

text \<open>
  C4. On \<open>[5,4,3,2,1,2,3,4,5]\<close> the function returns 4, and 4 is the 0-based position
  of the value 1, the minimum of the sequence.
\<close>

theorem FindLE_synthetic_is_4:
  "FindLE [5, 4, 3, 2, 1, 2, 3, 4, 5 :: real] = Inr (Some 4)
   \<and> [5, 4, 3, 2, 1, 2, 3, 4, 5 :: real] ! 4 = 1
   \<and> Min (set [5, 4, 3, 2, 1, 2, 3, 4, 5 :: real]) = 1"
  by (simp add: FindLE_def)

text \<open>The index 3 named for this input is not what the function returns.\<close>

theorem FindLE_synthetic_not_3:
  "FindLE [5, 4, 3, 2, 1, 2, 3, 4, 5 :: real] \<noteq> Inr (Some 3)"
  by (simp add: FindLE_def)

text \<open>
  C3. Whenever some element of \<open>X\<close> is not below its predecessor, \<open>FindLE\<close> returns the
  smallest \<open>i\<close> with \<open>X[i+1] \<ge> X[i]\<close>: the 0-based offset into the tail \<open>X[1:]\<close> of the
  first element that does not decrease, which is the index in \<open>X\<close> of the last point of the
  strictly decreasing run. It is at least 1 when \<open>X\<close> begins with a strictly decreasing
  step.
\<close>

theorem FindLE_first_nondecreasing:
  assumes "Suc j < length X" "X ! j \<le> X ! Suc j"
  shows "\<exists>i. FindLE X = Inr (Some i) \<and> i \<le> j \<and> Suc i < length X \<and> X ! i \<le> X ! Suc i
             \<and> (\<forall>k<i. X ! Suc k < X ! k) \<and> (X ! 1 < X ! 0 \<longrightarrow> 1 \<le> i)"
proof -
  define P where "P i \<longleftrightarrow> Suc i < length X \<and> X ! i \<le> X ! Suc i" for i
  define i where "i = (LEAST i. P i)"
  have Pj: "P j" using assms by (simp add: P_def)
  then have Pi: "P i" unfolding i_def by (rule LeastI)
  have le: "i \<le> j" unfolding i_def using Pj by (rule Least_le)
  have below: "X ! Suc k < X ! k" if "k < i" for k
  proof -
    from that have "\<not> P k" unfolding i_def by (rule not_less_Least)
    moreover from that Pi have "Suc k < length X" by (simp add: P_def)
    ultimately show ?thesis by (simp add: P_def)
  qed
  have "sorted_wrt (\<lambda>a b. a > b) (take (Suc i) X)"
  proof -
    have "transp (\<lambda>a b :: 'a. a > b)" by (auto intro: transpI)
    then show ?thesis
      using below Pi by (simp add: sorted_wrt_iff_nth_Suc_transp P_def)
  qed
  with Pi have "FindLE X = Inr (Some i)" by (simp add: FindLE_Some_iff P_def)
  moreover have "X ! 1 < X ! 0 \<longrightarrow> 1 \<le> i"
    using Pi by (cases i) (auto simp: P_def)
  ultimately show ?thesis using le Pi below by (auto simp: P_def)
qed

theorem FindLE_first_nondecreasing_witness:
  "Suc 2 < length [3, 2, 1, 2 :: real] \<and> [3, 2, 1, 2 :: real] ! 2 \<le> [3, 2, 1, 2] ! Suc 2
   \<and> FindLE [3, 2, 1, 2 :: real] = Inr (Some 2)"
  using FindLE_first_nondecreasing [of 2 "[3, 2, 1, 2 :: real]"]
  by (simp add: FindLE_def)

text \<open>
  On \<open>[3,2,1,2]\<close> the result is 2, where \<open>X[2] \<ge> X[1]\<close> does not hold; the smallest index
  with \<open>X[i] \<ge> X[i-1]\<close> is 3.
\<close>

theorem FindLE_not_position_after:
  "FindLE [3, 2, 1, 2 :: real] = Inr (Some 2)
   \<and> \<not> [3, 2, 1, 2 :: real] ! 2 \<ge> [3, 2, 1, 2] ! (2 - 1)
   \<and> [3, 2, 1, 2 :: real] ! 3 \<ge> [3, 2, 1, 2] ! (3 - 1)"
  by (simp add: FindLE_def)

text \<open>
  C5. Without a transition \<open>FindLE\<close> raises nothing of its own: it returns \<open>None\<close> exactly
  on the non-empty strictly decreasing sequences, among them every one-element sequence;
  it raises \<open>IndexError\<close> exactly on the empty sequence; and on the strictly increasing
  \<open>[1,2,3,4,5]\<close> it returns the index 0.
\<close>

theorem FindLE_without_transition:
  "(FindLE X = Inr None \<longleftrightarrow> X \<noteq> [] \<and> sorted_wrt (\<lambda>a b. a > b) X)
   \<and> (FindLE X = Inl IndexError \<longleftrightarrow> X = [])
   \<and> FindLE [x] = Inr None
   \<and> FindLE [1, 2, 3, 4, 5 :: real] = Inr (Some 0)"
  by (simp add: FindLE_None_iff FindLE_Inl_iff) (simp add: FindLE_def)

theorem FindLE_without_transition_witness:
  "FindLE [3, 2, 1 :: real] = Inr None \<and> FindLE ([] :: real list) = Inl IndexError"
  using FindLE_without_transition [of "[3, 2, 1 :: real]" "0 :: real"]
        FindLE_without_transition [of "[] :: real list" "0 :: real"]
  by simp

text \<open>The strictly increasing sequence is answered with an index, not with an error.\<close>

theorem FindLE_increasing_returns_0:
  "FindLE [1, 2, 3, 4, 5 :: real] = Inr (Some 0)"
  by (simp add: FindLE_def)

subsection \<open>MsesSplit\<close>

text \<open>
  C2. When \<open>FindLE\<close> finds an index and \<open>y\<close> is as long as \<open>x\<close>, the two outputs have
  \<open>length y\<close> elements together and hold exactly the elements of \<open>y\<close>, each once: the
  upper output reversed, followed by the lower output, is \<open>y\<close>.
\<close>

theorem MsesSplit_preserves_points:
  assumes "FindLE x = Inr (Some iLE)" "length y = length x"
  shows "\<exists>up lo. MsesSplit x y = Inr (up, lo)
           \<and> length up + length lo = length y
           \<and> mset up + mset lo = mset y
           \<and> rev up @ lo = y"
proof -
  from assms(1) have "Suc iLE < length x" by (simp add: FindLE_Some_iff)
  with assms(2) have "length (take (Suc iLE) y) + length (drop (Suc iLE) y) = length y"
    by simp
  moreover have "mset (take (Suc iLE) y) + mset (drop (Suc iLE) y) = mset y"
    by (simp flip: mset_append)
  ultimately show ?thesis
    using MsesSplit_Some [OF assms(1), of y] by simp
qed

theorem MsesSplit_preserves_points_witness:
  "FindLE [3, 2, 1, 2, 3 :: real] = Inr (Some 2)
   \<and> length [10, 20, 30, 40, 50 :: real] = length [3, 2, 1, 2, 3 :: real]
   \<and> MsesSplit [3, 2, 1, 2, 3 :: real] [10, 20, 30, 40, 50 :: real]
       = Inr ([30, 20, 10], [40, 50])"
  using MsesSplit_preserves_points [of "[3, 2, 1, 2, 3 :: real]" 2 "[10, 20, 30, 40, 50 :: real]"]
  by (simp add: FindLE_def MsesSplit_def)

text \<open>
  C8. For a valid MSES x sequence, splitting x against itself gives two ascending
  sequences. The upper one is the reversal of the strictly descending slice up to the
  leading edge, so it is strictly ascending.
\<close>

theorem MsesSplit_x_ascending:
  assumes "valid_mses x"
  shows "\<exists>i xup xlo. FindLE x = Inr (Some i) \<and> MsesSplit x x = Inr (xup, xlo)
           \<and> sorted_wrt (\<lambda>a b. a > b) (take (Suc i) x) \<and> xup = rev (take (Suc i) x)
           \<and> sorted xup \<and> sorted xlo"
proof -
  from valid_mses_FindLE [OF assms] obtain i where
    i: "FindLE x = Inr (Some i)" "Suc i < length x" "sorted (drop i x)" by blast
  from i(1) have dec: "sorted_wrt (\<lambda>a b. a > b) (take (Suc i) x)"
    by (simp add: FindLE_Some_iff)
  then have "sorted_wrt (\<lambda>a b. a < b) (rev (take (Suc i) x))"
    by (simp add: sorted_wrt_rev)
  then have up: "sorted (rev (take (Suc i) x))"
    by (rule strict_sorted_imp_sorted)
  have "drop (Suc i) x = drop 1 (drop i x)" by simp
  with i(3) have lo: "sorted (drop (Suc i) x)"
    by (simp only: sorted_wrt_drop)
  show ?thesis
    using i(1) dec up lo MsesSplit_Some [OF i(1), of x] by simp
qed

theorem MsesSplit_x_ascending_witness:
  "valid_mses [3, 2, 1, 2, 3 :: real]
   \<and> MsesSplit [3, 2, 1, 2, 3 :: real] [3, 2, 1, 2, 3 :: real] = Inr ([1, 2, 3], [2, 3])
   \<and> sorted [1, 2, 3 :: real] \<and> sorted [2, 3 :: real]"
  using MsesSplit_x_ascending [of "[3, 2, 1, 2, 3 :: real]"]
  by (simp add: valid_mses_def FindLE_def MsesSplit_def)

subsection \<open>MsesMerge\<close>

lemma slice_assign_front:
  "length v = n1 \<Longrightarrow> slice_assign (replicate (n1 + m) z) 0 n1 v = Inr (v @ replicate m z)"
  by (simp add: slice_assign_def Let_def)

lemma slice_assign_back:
  "length v = n1 \<Longrightarrow> length w = m \<Longrightarrow>
   slice_assign (v @ replicate m z) n1 (n1 + m) w = Inr (v @ w)"
  by (simp add: slice_assign_def Let_def)

lemma drop_LE_nonempty:
  "xlo \<noteq> [] \<Longrightarrow> xup \<noteq> [] \<Longrightarrow> ylo \<noteq> [] \<Longrightarrow> yup \<noteq> [] \<Longrightarrow>
   drop_LE xlo xup ylo yup = Inr (hd xlo = hd xup \<and> hd ylo = 0 \<and> hd yup = 0)"
  by (cases xlo; cases xup; cases ylo; cases yup) (auto simp: drop_LE_def)

lemma MsesMerge_paired:
  assumes "xlo \<noteq> []" "xup \<noteq> []" "length ylo = length xlo" "length yup = length xup"
  shows "MsesMerge xlo xup ylo yup =
     Inr (if hd xlo = hd xup \<and> hd ylo = 0 \<and> hd yup = 0
          then (rev xup @ drop 1 xlo, rev yup @ drop 1 ylo)
          else (rev xup @ xlo, rev yup @ ylo))"
proof -
  from assms have ne: "ylo \<noteq> []" "yup \<noteq> []" by auto
  show ?thesis
    using assms
    by (simp add: MsesMerge_def drop_LE_nonempty [OF assms(1,2) ne] Let_def
        slice_assign_front slice_assign_back)
qed

lemma MsesMerge_empty:
  "xlo = [] \<or> xup = [] \<Longrightarrow> MsesMerge xlo xup ylo yup = Inl IndexError"
  by (auto simp: MsesMerge_def drop_LE_def split: list.splits)

text \<open>
  C6. For non-empty lower and upper surfaces, each x sequence as long as its y sequence,
  \<open>MsesMerge\<close> returns the upper surface reversed in the first \<open>length xup\<close> entries,
  followed by the lower surface, whose first point is dropped exactly when
  \<open>xlo[0] = xup[0]\<close>, \<open>ylo[0] = 0\<close> and \<open>yup[0] = 0\<close>. The output length is
  \<open>length xup + length xlo\<close>, one less exactly in that case.
\<close>

theorem MsesMerge_paired_result:
  assumes "xlo \<noteq> []" "xup \<noteq> []" "length ylo = length xlo" "length yup = length xup"
  shows "\<exists>x y. MsesMerge xlo xup ylo yup = Inr (x, y)
     \<and> take (length xup) x = rev xup \<and> take (length xup) y = rev yup
     \<and> (if hd xlo = hd xup \<and> hd ylo = 0 \<and> hd yup = 0
        then drop (length xup) x = tl xlo \<and> drop (length xup) y = tl ylo
           \<and> length x = length xup + length xlo - 1
        else drop (length xup) x = xlo \<and> drop (length xup) y = ylo
           \<and> length x = length xup + length xlo)
     \<and> length y = length x"
  using assms by (cases xlo) (auto simp: MsesMerge_paired drop_Suc)

theorem MsesMerge_paired_result_witness:
  "[0, 1, 2 :: real] \<noteq> [] \<and> [0, 1, 2 :: real] \<noteq> []
   \<and> length [0, -1, 0 :: real] = length [0, 1, 2 :: real]
   \<and> length [0, 1, 0 :: real] = length [0, 1, 2 :: real]
   \<and> MsesMerge [0, 1, 2] [0, 1, 2] [0, -1, 0] [0, 1, 0 :: real]
        = Inr ([2, 1, 0, 1, 2], [0, 1, 0, -1, 0])
   \<and> MsesMerge [1, 2] [0, 1, 2] [-1, 0] [0, 1, 0 :: real]
        = Inr ([2, 1, 0, 1, 2], [0, 1, 0, -1, 0])"
  using MsesMerge_paired_result [of "[0, 1, 2 :: real]" "[0, 1, 2]" "[0, -1, 0]" "[0, 1, 0]"]
        MsesMerge_paired_result [of "[1, 2 :: real]" "[0, 1, 2]" "[-1, 0]" "[0, 1, 0]"]
  by (simp add: MsesMerge_def drop_LE_def slice_assign_def Let_def)

text \<open>With empty surfaces, which have equal paired lengths, nothing is returned.\<close>

theorem MsesMerge_empty_raises:
  "MsesMerge [] [] [] ([] :: real list) = Inl IndexError"
  by (simp add: MsesMerge_def drop_LE_def)

text \<open>
  C1. For a valid MSES curve, merging the split of x against x and of y against x gives
  back \<open>(x, y)\<close>. When the lower surface's first point has the x of the upper surface's
  first point and both y values are 0, the result is \<open>(x, y)\<close> without the point at index
  \<open>i + 1\<close>, the first point of the lower surface.
\<close>

theorem MsesMerge_MsesSplit_roundtrip:
  assumes "valid_mses x" "length y = length x"
  shows "\<exists>i xup xlo yup ylo.
     FindLE x = Inr (Some i) \<and> Suc i < length x
     \<and> MsesSplit x x = Inr (xup, xlo) \<and> MsesSplit x y = Inr (yup, ylo)
     \<and> xup \<noteq> [] \<and> xlo \<noteq> [] \<and> yup \<noteq> [] \<and> ylo \<noteq> []
     \<and> hd xup = x ! i \<and> hd xlo = x ! Suc i \<and> hd yup = y ! i \<and> hd ylo = y ! Suc i
     \<and> MsesMerge xlo xup ylo yup =
         Inr (if hd xlo = hd xup \<and> hd ylo = 0 \<and> hd yup = 0
              then (take (Suc i) x @ drop (Suc (Suc i)) x, take (Suc i) y @ drop (Suc (Suc i)) y)
              else (x, y))"
proof -
  from valid_mses_FindLE [OF assms(1)] obtain i where
    i: "FindLE x = Inr (Some i)" "Suc i < length x" by blast
  let ?xup = "rev (take (Suc i) x)" and ?xlo = "drop (Suc i) x"
  let ?yup = "rev (take (Suc i) y)" and ?ylo = "drop (Suc i) y"
  have ne: "?xlo \<noteq> []" "?xup \<noteq> []" "?ylo \<noteq> []" "?yup \<noteq> []"
    using i(2) assms(2) by auto
  have len: "length ?ylo = length ?xlo" "length ?yup = length ?xup"
    using assms(2) by simp_all
  have hds: "hd ?xup = x ! i" "hd ?xlo = x ! Suc i" "hd ?yup = y ! i" "hd ?ylo = y ! Suc i"
    using i(2) assms(2) by (simp_all add: hd_rev hd_drop_conv_nth take_Suc_conv_app_nth)
  have "MsesMerge ?xlo ?xup ?ylo ?yup =
         Inr (if hd ?xlo = hd ?xup \<and> hd ?ylo = 0 \<and> hd ?yup = 0
              then (take (Suc i) x @ drop (Suc (Suc i)) x, take (Suc i) y @ drop (Suc (Suc i)) y)
              else (x, y))"
    by (simp add: MsesMerge_paired [OF ne(1,2) len])
  with i ne hds show ?thesis
    using MsesSplit_Some [OF i(1), of x] MsesSplit_Some [OF i(1), of y] by blast
qed

theorem MsesMerge_MsesSplit_roundtrip_witness:
  "valid_mses [2, 1, 0, 1, 2 :: real] \<and> length [0, 3, 0, -3, 0 :: real] = length [2, 1, 0, 1, 2 :: real]
   \<and> MsesSplit [2, 1, 0, 1, 2 :: real] [2, 1, 0, 1, 2 :: real] = Inr ([0, 1, 2], [1, 2])
   \<and> MsesSplit [2, 1, 0, 1, 2 :: real] [0, 3, 0, -3, 0 :: real] = Inr ([0, 3, 0], [-3, 0])
   \<and> MsesMerge [1, 2] [0, 1, 2] [-3, 0] [0, 3, 0 :: real]
        = Inr ([2, 1, 0, 1, 2], [0, 3, 0, -3, 0])
   \<and> valid_mses [2, 0, 0, 2 :: real] \<and> length [1, 0, 0, -1 :: real] = length [2, 0, 0, 2 :: real]
   \<and> MsesSplit [2, 0, 0, 2 :: real] [2, 0, 0, 2 :: real] = Inr ([0, 2], [0, 2])
   \<and> MsesSplit [2, 0, 0, 2 :: real] [1, 0, 0, -1 :: real] = Inr ([0, 1], [0, -1])
   \<and> MsesMerge [0, 2] [0, 2] [0, -1] [0, 1 :: real] = Inr ([2, 0, 2], [1, 0, -1])"
  using MsesMerge_MsesSplit_roundtrip [of "[2, 1, 0, 1, 2 :: real]" "[0, 3, 0, -3, 0]"]
        MsesMerge_MsesSplit_roundtrip [of "[2, 0, 0, 2 :: real]" "[1, 0, 0, -1]"]
  by (simp add: valid_mses_def FindLE_def MsesSplit_def MsesMerge_def drop_LE_def
      slice_assign_def Let_def)

subsection \<open>MsesInterp\<close>

lemma lin_interp_node:
  "sorted_wrt (\<lambda>a b. a < b) xp \<Longrightarrow> length fp = length xp \<Longrightarrow> j < length xp \<Longrightarrow>
   x = xp ! j \<Longrightarrow> lin_interp x xp fp = fp ! j"
proof (induction x xp fp arbitrary: j rule: lin_interp.induct)
  case (1 x x0 x1 xp y0 y1 fp)
  show ?case
  proof (cases j)
    case 0
    with "1.prems" show ?thesis by auto
  next
    case (Suc j')
    with "1.prems" have ge: "x1 \<le> x"
      by (cases j') (auto simp: less_imp_le)
    with Suc "1.prems" "1.IH" [of j'] show ?thesis by auto
  qed
next
  case (2 x x0 y0 fp)
  then show ?case by auto
qed auto

lemma np_interp_nodes:
  assumes "sorted_wrt (\<lambda>a b. a < b) xp" "length fp = length xp" "xp \<noteq> []"
  shows "np_interp xp xp fp = Inr fp"
proof -
  have "map (\<lambda>x. lin_interp x xp fp) xp = fp"
    using assms(1,2) by (intro nth_equalityI) (auto simp: lin_interp_node)
  with assms show ?thesis by (simp add: np_interp_def)
qed

lemma np_interp_total:
  "xp \<noteq> [] \<Longrightarrow> length fp = length xp \<Longrightarrow>
   np_interp xout xp fp = Inr (map (\<lambda>x. lin_interp x xp fp) xout)"
  by (simp add: np_interp_def)

text \<open>
  C7. For a valid MSES curve with \<open>ymses\<close> as long as \<open>xmses\<close>: interpolating at the
  upper surface's own x nodes returns the upper surface's y values; interpolating at the
  lower surface's own x nodes returns the lower surface's y values when those nodes are
  strictly increasing.
\<close>

theorem MsesInterp_exact_at_nodes:
  assumes "valid_mses xmses" "length ymses = length xmses"
  shows "\<exists>xup xlo yup ylo.
     MsesSplit xmses xmses = Inr (xup, xlo) \<and> MsesSplit xmses ymses = Inr (yup, ylo)
     \<and> (\<exists>lo'. MsesInterp xup xmses ymses = Inr (yup, lo'))
     \<and> (sorted_wrt (\<lambda>a b. a < b) xlo \<longrightarrow> (\<exists>up'. MsesInterp xlo xmses ymses = Inr (up', ylo)))"
proof -
  from valid_mses_FindLE [OF assms(1)] obtain i where
    i: "FindLE xmses = Inr (Some i)" "Suc i < length xmses" by blast
  let ?xup = "rev (take (Suc i) xmses)" and ?xlo = "drop (Suc i) xmses"
  let ?yup = "rev (take (Suc i) ymses)" and ?ylo = "drop (Suc i) ymses"
  have sx: "MsesSplit xmses xmses = Inr (?xup, ?xlo)" by (rule MsesSplit_Some [OF i(1)])
  have sy: "MsesSplit xmses ymses = Inr (?yup, ?ylo)" by (rule MsesSplit_Some [OF i(1)])
  have ne: "?xup \<noteq> []" "?xlo \<noteq> []" using i(2) by auto
  have len: "length ?yup = length ?xup" "length ?ylo = length ?xlo"
    using assms(2) by simp_all
  from i(1) have "sorted_wrt (\<lambda>a b. a > b) (take (Suc i) xmses)"
    by (simp add: FindLE_Some_iff)
  then have up_asc: "sorted_wrt (\<lambda>a b. a < b) ?xup"
    by (simp add: sorted_wrt_rev)
  have up: "MsesInterp ?xup xmses ymses = Inr (?yup, map (\<lambda>x. lin_interp x ?xlo ?ylo) ?xup)"
    unfolding MsesInterp_def sx sy
    by (simp only: sum.case prod.case np_interp_nodes [OF up_asc len(1) ne(1)]
        np_interp_total [OF ne(2) len(2)])
  have lo: "MsesInterp ?xlo xmses ymses = Inr (map (\<lambda>x. lin_interp x ?xup ?yup) ?xlo, ?ylo)"
    if "sorted_wrt (\<lambda>a b. a < b) ?xlo"
    unfolding MsesInterp_def sx sy
    by (simp only: sum.case prod.case np_interp_nodes [OF that len(2) ne(2)]
        np_interp_total [OF ne(1) len(1)])
  from sx sy up lo show ?thesis by blast
qed

theorem MsesInterp_exact_at_nodes_witness:
  "valid_mses [3, 1, 2, 3 :: real] \<and> length [0, 0, 5, 0 :: real] = length [3, 1, 2, 3 :: real]
   \<and> MsesSplit [3, 1, 2, 3 :: real] [3, 1, 2, 3 :: real] = Inr ([1, 3], [2, 3])
   \<and> MsesSplit [3, 1, 2, 3 :: real] [0, 0, 5, 0 :: real] = Inr ([0, 0], [5, 0])
   \<and> sorted_wrt (\<lambda>a b. a < b) [2, 3 :: real]
   \<and> MsesInterp [1, 3] [3, 1, 2, 3] [0, 0, 5, 0 :: real] = Inr ([0, 0], [5, 0])
   \<and> MsesInterp [2, 3] [3, 1, 2, 3] [0, 0, 5, 0 :: real] = Inr ([0, 0], [5, 0])"
  using MsesInterp_exact_at_nodes [of "[3, 1, 2, 3 :: real]" "[0, 0, 5, 0 :: real]"]
  by (simp add: valid_mses_def FindLE_def MsesSplit_def MsesInterp_def np_interp_def)

text \<open>
  A valid curve may repeat an x value on the lower surface. The interpolation gives one
  value per x, so the two y values at the repeated node \<open>2\<close>, 5 and 7, are not both
  returned.
\<close>

theorem MsesInterp_repeated_node:
  "valid_mses [3, 1, 2, 2, 3 :: real]
   \<and> MsesSplit [3, 1, 2, 2, 3 :: real] [3, 1, 2, 2, 3 :: real] = Inr ([1, 3], [2, 2, 3])
   \<and> MsesSplit [3, 1, 2, 2, 3 :: real] [0, 0, 5, 7, 0 :: real] = Inr ([0, 0], [5, 7, 0])
   \<and> MsesInterp [2, 2, 3] [3, 1, 2, 2, 3] [0, 0, 5, 7, 0 :: real] = Inr ([0, 0, 0], [7, 7, 0])"
  by (simp add: valid_mses_def FindLE_def MsesSplit_def MsesInterp_def np_interp_def)

subsection \<open>Sequences of different lengths, empty surfaces\<close>

lemma MsesInterp_mismatch:
  assumes "FindLE xmses = Inr (Some k)" "length ymses \<noteq> length xmses"
  shows "MsesInterp xout xmses ymses = Inl ValueError"
proof -
  from assms(1) have k: "Suc k < length xmses" by (simp add: FindLE_Some_iff)
  show ?thesis
  proof (cases "length ymses < Suc k")
    case True
    with k show ?thesis
      by (simp add: MsesInterp_def MsesSplit_Some [OF assms(1)] np_interp_def)
  next
    case False
    with k assms(2) have "length ymses - Suc k \<noteq> length xmses - Suc k" by arith
    with k False show ?thesis
      by (simp add: MsesInterp_def MsesSplit_Some [OF assms(1)] np_interp_def)
  qed
qed

lemma slice_assign_Inr:
  "slice_assign a lo hi v = Inr r \<Longrightarrow>
   (length v = min hi (length a) - lo \<or> length v = 1) \<and> length r = length (take lo a) + (min hi (length a) - lo) + length (drop (lo + (min hi (length a) - lo)) a)"
  by (auto simp: slice_assign_def Let_def split: if_splits)

lemma drop_LE_True:
  "drop_LE xlo xup ylo yup = Inr True \<Longrightarrow> xlo \<noteq> [] \<and> ylo \<noteq> []"
  by (auto simp: drop_LE_def split: list.splits if_splits)

lemma MsesMerge_Inr_lengths:
  assumes "MsesMerge xlo xup ylo yup = Inr r"
  shows "(length yup = length xup \<or> length yup = 1)
       \<and> (length ylo = length xlo \<or> length ylo = 1 \<or> length ylo = 2)"
proof -
  from assms obtain d where d: "drop_LE xlo xup ylo yup = Inr d"
    by (auto simp: MsesMerge_def split: sum.splits)
  define xlo' where "xlo' = (if d then drop 1 xlo else xlo)"
  define ylo' where "ylo' = (if d then drop 1 ylo else ylo)"
  define n where "n = length xup + length xlo'"
  from assms d obtain x1 y1 x2 y2 where
    s: "slice_assign (replicate n 0) 0 (length xup) (rev xup) = Inr x1"
       "slice_assign (replicate n 0) 0 (length xup) (rev yup) = Inr y1"
       "slice_assign x1 (length xup) n xlo' = Inr x2"
       "slice_assign y1 (length xup) n ylo' = Inr y2"
    by (auto simp: MsesMerge_def Let_def xlo'_def ylo'_def n_def split: sum.splits)
  from slice_assign_Inr [OF s(2)] have up: "length yup = length xup \<or> length yup = 1"
    and ly1: "length y1 = n" by (auto simp: n_def)
  from slice_assign_Inr [OF s(4)] ly1 have lo': "length ylo' = length xlo' \<or> length ylo' = 1"
    by (auto simp: n_def)
  have "length ylo = length xlo \<or> length ylo = 1 \<or> length ylo = 2"
  proof (cases d)
    case True
    with d have "drop_LE xlo xup ylo yup = Inr True" by simp
    from drop_LE_True [OF this] have "xlo \<noteq> []" "ylo \<noteq> []" by simp_all
    with True lo' show ?thesis
      unfolding xlo'_def ylo'_def by (cases xlo; cases ylo) auto
  next
    case False
    with lo' show ?thesis by (auto simp: xlo'_def ylo'_def)
  qed
  with up show ?thesis by simp
qed

lemma MsesMerge_not_TypeError: "MsesMerge xlo xup ylo yup \<noteq> Inl TypeError"
  by (auto simp: MsesMerge_def drop_LE_def slice_assign_def Let_def
      split: sum.splits list.splits if_splits)

text \<open>
  C9. No function checks the lengths itself. \<open>MsesSplit\<close> slices \<open>y\<close> at the index found
  in \<open>x\<close> whatever the length of \<open>y\<close> and returns the slices. In \<open>MsesInterp\<close> a
  \<open>ymses\<close> of another length than \<open>xmses\<close> reaches \<open>np.interp\<close>, which raises
  \<open>ValueError\<close>. In \<open>MsesMerge\<close> numpy's slice assignment raises \<open>ValueError\<close>, or an
  index \<open>[0]\<close> raises \<open>IndexError\<close>, when \<open>yup\<close> has neither the length of \<open>xup\<close> nor
  length 1, or \<open>ylo\<close> has neither the length of \<open>xlo\<close> nor length 1 or 2 (a one-element
  array is broadcast, and the leading-edge trim can leave one element of two).
\<close>

theorem length_mismatch_behaviour:
  "(FindLE x = Inr (Some i) \<longrightarrow> MsesSplit x y = Inr (rev (take (Suc i) y), drop (Suc i) y))
   \<and> (FindLE xmses = Inr (Some k) \<and> length ymses \<noteq> length xmses
        \<longrightarrow> MsesInterp xout xmses ymses = Inl ValueError)
   \<and> ((length yup \<noteq> length xup \<and> length yup \<noteq> 1)
        \<or> (length ylo \<noteq> length xlo \<and> length ylo \<noteq> 1 \<and> length ylo \<noteq> 2)
        \<longrightarrow> MsesMerge xlo xup ylo yup = Inl IndexError
          \<or> MsesMerge xlo xup ylo yup = Inl ValueError)"
proof (intro conjI impI)
  assume "FindLE x = Inr (Some i)"
  then show "MsesSplit x y = Inr (rev (take (Suc i) y), drop (Suc i) y)"
    by (rule MsesSplit_Some)
next
  assume "FindLE xmses = Inr (Some k) \<and> length ymses \<noteq> length xmses"
  then show "MsesInterp xout xmses ymses = Inl ValueError"
    by (simp add: MsesInterp_mismatch)
next
  assume a: "(length yup \<noteq> length xup \<and> length yup \<noteq> 1)
        \<or> (length ylo \<noteq> length xlo \<and> length ylo \<noteq> 1 \<and> length ylo \<noteq> 2)"
  show "MsesMerge xlo xup ylo yup = Inl IndexError
          \<or> MsesMerge xlo xup ylo yup = Inl ValueError"
  proof (cases "MsesMerge xlo xup ylo yup")
    case (Inl e)
    with MsesMerge_not_TypeError [of xlo xup ylo yup] show ?thesis
      by (cases e) simp_all
  next
    case (Inr r)
    from MsesMerge_Inr_lengths [OF Inr] a show ?thesis by blast
  qed
qed

theorem length_mismatch_behaviour_witness:
  "FindLE [2, 1, 2 :: real] = Inr (Some 1)
   \<and> MsesSplit [2, 1, 2 :: real] [7, 8, 9, 10 :: real] = Inr ([8, 7], [9, 10])
   \<and> length [7, 8 :: real] \<noteq> length [2, 1, 2 :: real]
   \<and> MsesInterp [1, 2] [2, 1, 2] [7, 8 :: real] = Inl ValueError
   \<and> length [5, 6, 7 :: real] \<noteq> length [0, 1 :: real]
   \<and> MsesMerge [0, 1] [0, 1] [5, 6, 7] [0, 0 :: real] = Inl ValueError"
  using length_mismatch_behaviour [of "[2, 1, 2 :: real]" 1 "[7, 8, 9, 10 :: real]"
          "[2, 1, 2 :: real]" 1 "[7, 8 :: real]" "[1, 2]"
          "[0, 0 :: real]" "[0, 1]" "[5, 6, 7]" "[0, 1]"]
  by (simp add: FindLE_def MsesSplit_def MsesMerge_def drop_LE_def slice_assign_def Let_def)

text \<open>\<open>MsesSplit\<close> with a \<open>y\<close> shorter than \<open>x\<close> returns, and nothing is raised.\<close>

theorem MsesSplit_mismatch_returns:
  "length [7, 8 :: real] \<noteq> length [2, 1, 2 :: real]
   \<and> MsesSplit [2, 1, 2 :: real] [7, 8 :: real] = Inr ([8, 7], [])"
  by (simp add: FindLE_def MsesSplit_def)

text \<open>
  C10. With \<open>y\<close> as long as \<open>x\<close>, \<open>MsesSplit\<close> never returns an empty surface: it returns
  two non-empty surfaces, or it raises \<open>TypeError\<close> when \<open>x\<close> is non-empty and strictly
  decreasing throughout (the leading edge would be the last index and \<open>FindLE\<close> returns
  \<open>None\<close>), or \<open>IndexError\<close> when \<open>x\<close> is empty. \<open>MsesMerge\<close> raises \<open>IndexError\<close>
  when \<open>xlo\<close> or \<open>xup\<close> is empty.
\<close>

theorem empty_surface_behaviour:
  "(length y = length x \<longrightarrow>
      (case MsesSplit x y of
         Inr (up, lo) \<Rightarrow> up \<noteq> [] \<and> lo \<noteq> []
       | Inl e \<Rightarrow> (e = TypeError \<and> x \<noteq> [] \<and> sorted_wrt (\<lambda>a b. a > b) x)
                \<or> (e = IndexError \<and> x = [])))
   \<and> (xlo = [] \<or> xup = [] \<longrightarrow> MsesMerge xlo xup ylo yup = Inl IndexError)"
proof (intro conjI impI)
  assume len: "length y = length x"
  show "case MsesSplit x y of
         Inr (up, lo) \<Rightarrow> up \<noteq> [] \<and> lo \<noteq> []
       | Inl e \<Rightarrow> (e = TypeError \<and> x \<noteq> [] \<and> sorted_wrt (\<lambda>a b. a > b) x)
                \<or> (e = IndexError \<and> x = [])"
  proof (cases "FindLE x")
    case (Inl e)
    then have "x = []" "e = IndexError" by (simp_all add: FindLE_Inl_iff)
    with Inl show ?thesis by (simp add: MsesSplit_def)
  next
    case (Inr r)
    show ?thesis
    proof (cases r)
      case None
      with Inr have "FindLE x = Inr None" by simp
      moreover from this have "x \<noteq> []" "sorted_wrt (\<lambda>a b. a > b) x"
        by (simp_all add: FindLE_None_iff)
      ultimately show ?thesis by (simp add: MsesSplit_def)
    next
      case (Some i)
      with Inr have "Suc i < length x" by (simp add: FindLE_Some_iff)
      with Inr Some len show ?thesis by (auto simp: MsesSplit_def)
    qed
  qed
next
  assume "xlo = [] \<or> xup = []"
  then show "MsesMerge xlo xup ylo yup = Inl IndexError" by (rule MsesMerge_empty)
qed

theorem empty_surface_behaviour_witness:
  "length [3, 2, 1 :: real] = length [3, 2, 1 :: real]
   \<and> MsesSplit [3, 2, 1 :: real] [3, 2, 1 :: real] = Inl TypeError
   \<and> MsesMerge [] [1, 2] [] [0, 0 :: real] = Inl IndexError"
  using empty_surface_behaviour [of "[3, 2, 1 :: real]" "[3, 2, 1 :: real]" "[]" "[1, 2 :: real]" "[]" "[0, 0]"]
  by (simp add: FindLE_def MsesSplit_def)

text \<open>
  With an empty \<open>y\<close> both surfaces are returned empty; and where the whole curve decreases,
  the error is the interpreter's \<open>TypeError\<close>.
\<close>

theorem MsesSplit_returns_empty_surfaces:
  "MsesSplit [2, 1, 2 :: real] ([] :: real list) = Inr ([], [])
   \<and> MsesSplit [3, 2, 1 :: real] [3, 2, 1 :: real] = Inl TypeError"
  by (simp add: FindLE_def MsesSplit_def)

end
